theory Spec2Isabelle
  imports
    Main
    "HOL-Library.Word"
    "HOL-Library.Char_ord"
    "HOL-Library.List_Lexorder"
begin

section \<open>Measurement schema enumeration of the tsm1 engine\<close>

text \<open>
  A shallow embedding of \<^verbatim>\<open>tsdb/tsm1/engine_measurement_schema.go\<close>:
  \<^verbatim>\<open>Engine.MeasurementNames\<close>, \<^verbatim>\<open>Engine.MeasurementTagValues\<close> and
  \<^verbatim>\<open>Engine.MeasurementTagKeys\<close>.  Byte slices and Go strings are both byte sequences,
  here \<open>string\<close> (a list of 8-bit characters); \<^verbatim>\<open>sort.Strings\<close> orders them byte-wise,
  which is the lexicographic order of \<open>HOL-Library.List_Lexorder\<close> over the character
  order of \<open>HOL-Library.Char_ord\<close>.
\<close>

subsection \<open>Data\<close>

type_synonym bytes = string

text \<open>Go's \<^verbatim>\<open>int\<close> (64-bit platforms): addition and multiplication wrap around.\<close>

type_synonym go_int = "64 word"

text \<open>Go's \<^verbatim>\<open>int64\<close>: the time stamps \<^verbatim>\<open>start\<close> and \<^verbatim>\<open>end\<close>, which the function only hands on
  to the files and to the cache entries.\<close>

type_synonym int64 = "64 word"

text \<open>\<^verbatim>\<open>influxdb.ID\<close> is an unsigned 64-bit value.\<close>

type_synonym ID = "64 word"

text \<open>
  Go's \<^verbatim>\<open>error\<close> values: the two errors a \<^verbatim>\<open>context.Context\<close> reports once it is done,
  and any other error, with its message.
\<close>

datatype error = Canceled | DeadlineExceeded | ErrorString string

text \<open>\<^verbatim>\<open>cursors.CursorStats\<close>: the two counters the function updates.\<close>

record CursorStats =
  ScannedValues :: go_int
  ScannedBytes :: go_int

definition zeroStats :: CursorStats where
  "zeroStats = \<lparr>ScannedValues = 0, ScannedBytes = 0\<rparr>"

text \<open>
  Modelled from the spec: \<^verbatim>\<open>CursorStats.Add\<close> is not among the sources at hand; the specification
  gives it as the addition of the two counters, field by field.
\<close>

definition Add :: "CursorStats \<Rightarrow> CursorStats \<Rightarrow> CursorStats" where
  "Add a b = \<lparr>ScannedValues = ScannedValues a + ScannedValues b,
              ScannedBytes = ScannedBytes a + ScannedBytes b\<rparr>"

text \<open>
  The cancellation context.  The function reads it only through \<^verbatim>\<open>ctx.Done()\<close>, polled
  in the per-file callback, and through \<^verbatim>\<open>ctx.Err()\<close>.  A context is done from some moment
  on and stays done; \<open>fires ctx = Some k\<close> says that the poll number \<open>k\<close> (counted from 0)
  is the first one that finds the channel closed, \<open>None\<close> that no poll ever does.
  \<^verbatim>\<open>Err\<close> is non-nil exactly when the context is done.
\<close>

record Context =
  fires :: "nat option"
  cause :: error

definition Done :: "Context \<Rightarrow> nat \<Rightarrow> bool" where
  "Done ctx n = (case fires ctx of None \<Rightarrow> False | Some k \<Rightarrow> k \<le> n)"

definition Err :: "Context \<Rightarrow> nat \<Rightarrow> error option" where
  "Err ctx n = (if Done ctx n then Some (cause ctx) else None)"

text \<open>
  Modelled from the spec: the cursor \<^verbatim>\<open>TimeRangeIterator\<close> of a TSM file is not among the sources at hand.  The specification gives it as an ordered cursor over keys with
  \<^verbatim>\<open>Next\<close>, \<^verbatim>\<open>Key\<close>, \<^verbatim>\<open>HasData\<close> and accumulated \<^verbatim>\<open>Stats\<close>.  It is the list of the
  positions that successive calls of \<^verbatim>\<open>Next\<close> reach; a position has its key, the answer
  of \<^verbatim>\<open>HasData\<close> there, and what a call of \<^verbatim>\<open>HasData\<close> there adds to the cursor's
  statistics (looking for data is what reads the file; \<^verbatim>\<open>Next\<close> and \<^verbatim>\<open>Key\<close> add
  nothing).
\<close>

record position =
  Key :: bytes
  HasData :: bool
  Cost :: CursorStats

text \<open>
  The interface \<^verbatim>\<open>TSMFile\<close>, as far as the function calls it; the implementations are
  not among the sources at hand, so each method is a field.
\<close>

record TSMFile =
  OverlapsTimeRange :: "int64 \<Rightarrow> int64 \<Rightarrow> bool"
  OverlapsKeyPrefixRange :: "bytes \<Rightarrow> bytes \<Rightarrow> bool"
  TimeRangeIterator :: "bytes \<Rightarrow> int64 \<Rightarrow> int64 \<Rightarrow> position list"

text \<open>
  A cache \<^verbatim>\<open>entry\<close> and its \<^verbatim>\<open>values\<close>, as far as the function calls them:
  \<^verbatim>\<open>entry.values.Len()\<close> and \<^verbatim>\<open>entry.values.Contains(start, end)\<close>.
\<close>

record Values =
  Len :: go_int
  Contains :: "int64 \<Rightarrow> int64 \<Rightarrow> bool"

record entry =
  entry_values :: Values

text \<open>
  The engine: the snapshot of TSM files in the order \<^verbatim>\<open>ForEachFile\<close> visits them, and the
  cache entries in the order \<^verbatim>\<open>ApplyEntryFn\<close> visits them.
\<close>

record Engine =
  FileStore :: "TSMFile list"
  Cache :: "(string \<times> entry) list"

text \<open>
  The key codec.  \<^verbatim>\<open>tsdb.EncodeName\<close>, \<^verbatim>\<open>models.EscapeMeasurement\<close>,
  \<^verbatim>\<open>SeriesAndFieldFromCompositeKey\<close> and \<^verbatim>\<open>models.ParseMeasurement\<close> are not among the sources at hand; they are parameters, and every theorem below holds for all of them.  The
  specification requires them to be total on any byte input.
\<close>

record Codec =
  EncodeName :: "ID \<Rightarrow> ID \<Rightarrow> bytes"
  EscapeMeasurement :: "bytes \<Rightarrow> bytes"
  SeriesAndFieldFromCompositeKey :: "bytes \<Rightarrow> bytes \<times> bytes"
  ParseMeasurement :: "bytes \<Rightarrow> bytes"

text \<open>
  Modelled from the spec: \<^verbatim>\<open>cursors.StringIterator\<close> and its constructor
  \<^verbatim>\<open>cursors.NewStringSliceIteratorWithStats\<close> are not among the sources at hand.  The specification
  gives the result as a sequence of strings together with the statistics, exposed as an
  iterator.  A Go interface value may be nil, so results are \<open>StringIterator option\<close>
  with \<open>None\<close> for nil; the constructor always builds an iterator, over exactly the slice
  it is given (a nil slice has no elements).
\<close>

record StringIterator =
  strings :: "string list"
  it_stats :: CursorStats

definition NewStringSliceIteratorWithStats ::
    "string list \<Rightarrow> CursorStats \<Rightarrow> StringIterator option" where
  "NewStringSliceIteratorWithStats s st = Some \<lparr>strings = s, it_stats = st\<rparr>"

text \<open>The local variables of \<^verbatim>\<open>MeasurementNames\<close> that its two closures capture and
  update, and the number of polls of the context made so far.\<close>

record scan =
  tsmValues :: "string set"
  stats :: CursorStats
  canceled :: bool
  polls :: nat

definition initScan :: scan where
  "initScan = \<lparr>tsmValues = {}, stats = zeroStats, canceled = False, polls = 0\<rparr>"

subsection \<open>Operations\<close>

text \<open>\<^verbatim>\<open>bytes.HasPrefix(s, prefix)\<close> and \<^verbatim>\<open>strings.HasPrefix(s, prefix)\<close>.\<close>

definition HasPrefix :: "bytes \<Rightarrow> bytes \<Rightarrow> bool" where
  "HasPrefix s p = (length p \<le> length s \<and> take (length p) s = p)"

text \<open>Lines 52-53 and 85-86: the measurement name of a composite key.\<close>

definition measurementOf :: "Codec \<Rightarrow> bytes \<Rightarrow> bytes" where
  "measurementOf c sfkey =
     (let (key, _) = SeriesAndFieldFromCompositeKey c sfkey in ParseMeasurement c key)"

text \<open>
  Lines 45-66: the loop over the cursor of one file.  \<open>vals\<close> is \<^verbatim>\<open>tsmValues\<close>, \<open>ist\<close>
  the statistics of the cursor so far.  The first key without the prefix ends the loop;
  an empty name and a name already in \<^verbatim>\<open>tsmValues\<close> go on to the next key before
  \<^verbatim>\<open>HasData\<close> is called.
\<close>

fun scanKeys ::
    "Codec \<Rightarrow> bytes \<Rightarrow> position list \<Rightarrow> string set \<Rightarrow> CursorStats \<Rightarrow> string set \<times> CursorStats" where
  "scanKeys c prefix [] vals ist = (vals, ist)"
| "scanKeys c prefix (p # ps) vals ist =
     (if \<not> HasPrefix (Key p) prefix then (vals, ist)
      else if length (measurementOf c (Key p)) = 0 then scanKeys c prefix ps vals ist
      else if measurementOf c (Key p) \<in> vals then scanKeys c prefix ps vals ist
      else if HasData p
        then scanKeys c prefix ps (insert (measurementOf c (Key p)) vals) (Add ist (Cost p))
        else scanKeys c prefix ps vals (Add ist (Cost p)))"

text \<open>Lines 43-69: what the callback does with a file once the context was found not done.\<close>

definition processFile :: "Codec \<Rightarrow> bytes \<Rightarrow> int64 \<Rightarrow> int64 \<Rightarrow> TSMFile \<Rightarrow> scan \<Rightarrow> scan" where
  "processFile c prefix start end' f sc =
     (if OverlapsTimeRange f start end' \<and> OverlapsKeyPrefixRange f prefix prefix then
        (let iter = TimeRangeIterator f prefix start end';
             (vals, ist) = scanKeys c prefix iter (tsmValues sc) zeroStats
         in sc\<lparr>tsmValues := vals, stats := Add (stats sc) ist\<rparr>)
      else sc)"

text \<open>
  Lines 35-70: the callback given to \<^verbatim>\<open>ForEachFile\<close>.  It polls the context first; the
  result says whether the iteration goes on.
\<close>

definition visitFile ::
    "Codec \<Rightarrow> Context \<Rightarrow> bytes \<Rightarrow> int64 \<Rightarrow> int64 \<Rightarrow> TSMFile \<Rightarrow> scan \<Rightarrow> bool \<times> scan" where
  "visitFile c ctx prefix start end' f sc =
     (if Done ctx (polls sc)
      then (False, sc\<lparr>canceled := True, polls := Suc (polls sc)\<rparr>)
      else (True, processFile c prefix start end' f (sc\<lparr>polls := Suc (polls sc)\<rparr>)))"

text \<open>
  Modelled from the spec: \<^verbatim>\<open>FileStore.ForEachFile\<close> is not among the sources at hand.  The
  specification gives it as applying the callback to each file of the snapshot, stopping at
  once when the callback returns "stop".
\<close>

fun ForEachFile :: "(TSMFile \<Rightarrow> scan \<Rightarrow> bool \<times> scan) \<Rightarrow> TSMFile list \<Rightarrow> scan \<Rightarrow> scan" where
  "ForEachFile fn [] sc = sc"
| "ForEachFile fn (f # fs) sc =
     (case fn f sc of (cont, sc') \<Rightarrow> if cont then ForEachFile fn fs sc' else sc')"

text \<open>Lines 79-102: the callback given to \<^verbatim>\<open>ApplyEntryFn\<close>.  Every path returns nil.\<close>

definition cacheFn ::
    "Codec \<Rightarrow> string \<Rightarrow> int64 \<Rightarrow> int64 \<Rightarrow> string \<Rightarrow> entry \<Rightarrow> scan \<Rightarrow> error option \<times> scan" where
  "cacheFn c prefixStr start end' sfkey en sc =
     (if \<not> HasPrefix sfkey prefixStr then (None, sc)
      else if length (measurementOf c sfkey) = 0 then (None, sc)
      else if measurementOf c sfkey \<in> tsmValues sc then (None, sc)
      else
        (let n = Len (entry_values en);
             st = (stats sc)\<lparr>ScannedValues := ScannedValues (stats sc) + n,
                              ScannedBytes := ScannedBytes (stats sc) + n * 8\<rparr>;
             vals = (if Contains (entry_values en) start end'
                     then insert (measurementOf c sfkey) (tsmValues sc) else tsmValues sc)
         in (None, sc\<lparr>tsmValues := vals, stats := st\<rparr>)))"

text \<open>
  Modelled from the spec: \<^verbatim>\<open>Cache.ApplyEntryFn\<close> is not among the sources at hand.  The
  specification gives it as applying the visitor to every entry of the cache, with no look
  at the context, and surfacing an error of the visitor; the first error ends it.
\<close>

fun ApplyEntryFn ::
    "(string \<Rightarrow> entry \<Rightarrow> scan \<Rightarrow> error option \<times> scan) \<Rightarrow> (string \<times> entry) list \<Rightarrow> scan
       \<Rightarrow> error option \<times> scan" where
  "ApplyEntryFn fn [] sc = (None, sc)"
| "ApplyEntryFn fn ((k, en) # es) sc =
     (case fn k en sc of
        (Some err, sc') \<Rightarrow> (Some err, sc')
      | (None, sc') \<Rightarrow> ApplyEntryFn fn es sc')"

text \<open>Lines 24-27: the escaped prefix of the organisation and bucket.\<close>

definition prefixOf :: "Codec \<Rightarrow> ID \<Rightarrow> ID \<Rightarrow> bytes" where
  "prefixOf c orgID bucketID = EscapeMeasurement c (EncodeName c orgID bucketID)"

text \<open>Lines 29-70: the scan of the TSM files, from the initial values of the locals.\<close>

definition segmentPhase ::
    "Codec \<Rightarrow> Engine \<Rightarrow> Context \<Rightarrow> ID \<Rightarrow> ID \<Rightarrow> int64 \<Rightarrow> int64 \<Rightarrow> scan" where
  "segmentPhase c e ctx orgID bucketID start end' =
     ForEachFile (visitFile c ctx (prefixOf c orgID bucketID) start end') (FileStore e) initScan"

text \<open>
  Lines 23-111: \<^verbatim>\<open>Engine.MeasurementNames\<close>.  On cancellation it returns an iterator over
  a nil slice with the statistics so far and \<^verbatim>\<open>ctx.Err()\<close>.  Otherwise it runs the visitor
  over the cache, assigns what \<^verbatim>\<open>ApplyEntryFn\<close> returns to the blank identifier (line 79),
  sorts the keys of \<^verbatim>\<open>tsmValues\<close> and returns them with a nil error.
\<close>

definition MeasurementNames ::
    "Codec \<Rightarrow> Engine \<Rightarrow> Context \<Rightarrow> ID \<Rightarrow> ID \<Rightarrow> int64 \<Rightarrow> int64 \<Rightarrow>
     StringIterator option \<times> error option" where
  "MeasurementNames c e ctx orgID bucketID start end' =
     (let prefix = prefixOf c orgID bucketID;
          sc1 = segmentPhase c e ctx orgID bucketID start end'
      in if canceled sc1
         then (NewStringSliceIteratorWithStats [] (stats sc1), Err ctx (polls sc1))
         else
           (let prefixStr = prefix;
                (_, sc2) = ApplyEntryFn (cacheFn c prefixStr start end') (Cache e) sc1;
                vals = sorted_list_of_set (tsmValues sc2)
            in (NewStringSliceIteratorWithStats vals (stats sc2), None)))"

text \<open>Lines 121-123 and 133-135: both return \<^verbatim>\<open>nil, nil\<close>.\<close>

definition MeasurementTagValues ::
    "Engine \<Rightarrow> Context \<Rightarrow> ID \<Rightarrow> ID \<Rightarrow> string \<Rightarrow> string \<Rightarrow> int64 \<Rightarrow> int64 \<Rightarrow> 'expr
       \<Rightarrow> StringIterator option \<times> error option" where
  "MeasurementTagValues e ctx orgID bucketID measurement tagKey start end' predicate =
     (None, None)"

definition MeasurementTagKeys ::
    "Engine \<Rightarrow> Context \<Rightarrow> ID \<Rightarrow> ID \<Rightarrow> string \<Rightarrow> int64 \<Rightarrow> int64 \<Rightarrow> 'expr
       \<Rightarrow> StringIterator option \<times> error option" where
  "MeasurementTagKeys e ctx orgID bucketID measurement start end' predicate = (None, None)"

subsection \<open>The two scans as folds\<close>

text \<open>
  The files processed one after the other, each after one poll of the context that found it
  not done: what lines 35-70 compute as long as no poll finds the context done.
\<close>

definition scanFiles ::
    "Codec \<Rightarrow> bytes \<Rightarrow> int64 \<Rightarrow> int64 \<Rightarrow> TSMFile list \<Rightarrow> scan \<Rightarrow> scan" where
  "scanFiles c prefix start end' fs sc =
     foldl (\<lambda>s f. processFile c prefix start end' f (s\<lparr>polls := Suc (polls s)\<rparr>)) sc fs"

text \<open>The visitor of lines 79-102 applied to every entry of the cache, one after the other.\<close>

definition scanEntries ::
    "Codec \<Rightarrow> string \<Rightarrow> int64 \<Rightarrow> int64 \<Rightarrow> (string \<times> entry) list \<Rightarrow> scan \<Rightarrow> scan" where
  "scanEntries c prefixStr start end' es sc =
     foldl (\<lambda>s (k, en). snd (cacheFn c prefixStr start end' k en s)) sc es"

subsection \<open>A concrete engine\<close>

text \<open>
  The inputs at which the theorems below are instantiated.  The codec has the fixed prefix
  \<open>ob\<close>, splits the series key from the field at \<open>#\<close>, and takes as measurement what
  follows the prefix up to the first comma; the key \<open>ob\<close> has an empty measurement.  The
  first file holds \<open>cpu\<close>, a key with an empty measurement, \<open>mem\<close>, a key of another
  bucket and one more key of this bucket after it; the second file holds \<open>disk\<close> and a
  key \<open>idle\<close> with no data in the range.  The cache holds \<open>cpu\<close> again, \<open>idle\<close> with
  no value in the range, a key with an empty measurement, and \<open>app\<close>.
\<close>

definition exCodec :: Codec where
  "exCodec = \<lparr>EncodeName = (\<lambda>orgID bucketID. ''ob''),
     EscapeMeasurement = (\<lambda>b. b),
     SeriesAndFieldFromCompositeKey =
       (\<lambda>k. (takeWhile (\<lambda>x. x \<noteq> CHR ''#'') k, drop 1 (dropWhile (\<lambda>x. x \<noteq> CHR ''#'') k))),
     ParseMeasurement = (\<lambda>k. takeWhile (\<lambda>x. x \<noteq> CHR '','') (drop 2 k))\<rparr>"

definition exKeysA :: "position list" where
  "exKeysA =
     [\<lparr>Key = ''obcpu,h=a#v'', HasData = True, Cost = \<lparr>ScannedValues = 3, ScannedBytes = 24\<rparr>\<rparr>,
      \<lparr>Key = ''ob'', HasData = True, Cost = \<lparr>ScannedValues = 1, ScannedBytes = 8\<rparr>\<rparr>,
      \<lparr>Key = ''obmem#v'', HasData = True, Cost = \<lparr>ScannedValues = 2, ScannedBytes = 16\<rparr>\<rparr>,
      \<lparr>Key = ''pqnet#v'', HasData = True, Cost = \<lparr>ScannedValues = 1, ScannedBytes = 8\<rparr>\<rparr>,
      \<lparr>Key = ''obzzz#v'', HasData = True, Cost = \<lparr>ScannedValues = 1, ScannedBytes = 8\<rparr>\<rparr>]"

definition exFileA :: TSMFile where
  "exFileA = \<lparr>OverlapsTimeRange = (\<lambda>start end'. start \<le> 10),
     OverlapsKeyPrefixRange = (\<lambda>lo hi. True),
     TimeRangeIterator = (\<lambda>prefix start end'. exKeysA)\<rparr>"

definition exFileB :: TSMFile where
  "exFileB = \<lparr>OverlapsTimeRange = (\<lambda>start end'. 11 \<le> end'),
     OverlapsKeyPrefixRange = (\<lambda>lo hi. True),
     TimeRangeIterator = (\<lambda>prefix start end'.
       [\<lparr>Key = ''obdisk#v'', HasData = True, Cost = \<lparr>ScannedValues = 4, ScannedBytes = 32\<rparr>\<rparr>,
        \<lparr>Key = ''obidle#v'', HasData = False, Cost = \<lparr>ScannedValues = 1, ScannedBytes = 8\<rparr>\<rparr>])\<rparr>"

definition exCpuEntry :: entry where
  "exCpuEntry = \<lparr>entry_values = \<lparr>Len = 5, Contains = (\<lambda>start end'. True)\<rparr>\<rparr>"

definition exEngine :: Engine where
  "exEngine = \<lparr>FileStore = [exFileA, exFileB],
     Cache = [(''obcpu,h=a#v'', exCpuEntry),
              (''obidle#v'', \<lparr>entry_values = \<lparr>Len = 2, Contains = (\<lambda>start end'. False)\<rparr>\<rparr>),
              (''ob'', \<lparr>entry_values = \<lparr>Len = 9, Contains = (\<lambda>start end'. True)\<rparr>\<rparr>),
              (''obapp#v'', \<lparr>entry_values = \<lparr>Len = 1, Contains = (\<lambda>start end'. True)\<rparr>\<rparr>)]\<rparr>"

text \<open>A context that is never done, and one that the poll number \<open>k\<close> finds done.\<close>

definition exNever :: Context where
  "exNever = \<lparr>fires = None, cause = Canceled\<rparr>"

definition exCancel :: "nat \<Rightarrow> Context" where
  "exCancel k = \<lparr>fires = Some k, cause = Canceled\<rparr>"

subsection \<open>Properties of the two scans\<close>

lemma scanKeys_finite: "finite vals \<Longrightarrow> finite (fst (scanKeys c prefix ps vals ist))"
  by (induction ps arbitrary: vals ist) auto

lemma processFile_polls [simp]: "polls (processFile c prefix start end' f sc) = polls sc"
  by (simp add: processFile_def split: prod.splits)

lemma processFile_canceled [simp]: "canceled (processFile c prefix start end' f sc) = canceled sc"
  by (simp add: processFile_def split: prod.splits)

lemma processFile_finite:
  "finite (tsmValues sc) \<Longrightarrow> finite (tsmValues (processFile c prefix start end' f sc))"
  using scanKeys_finite [of "tsmValues sc" c prefix "TimeRangeIterator f prefix start end'" zeroStats]
  by (auto simp: processFile_def split: prod.splits)

lemma scanFiles_Nil [simp]: "scanFiles c prefix start end' [] sc = sc"
  by (simp add: scanFiles_def)

lemma scanFiles_Cons [simp]:
  "scanFiles c prefix start end' (f # fs) sc =
     scanFiles c prefix start end' fs (processFile c prefix start end' f (sc\<lparr>polls := Suc (polls sc)\<rparr>))"
  by (simp add: scanFiles_def)

lemma scanFiles_polls [simp]:
  "polls (scanFiles c prefix start end' fs sc) = polls sc + length fs"
  by (induction fs arbitrary: sc) auto

lemma scanFiles_canceled [simp]:
  "canceled (scanFiles c prefix start end' fs sc) = canceled sc"
  by (induction fs arbitrary: sc) auto

lemma scanFiles_finite:
  "finite (tsmValues sc) \<Longrightarrow> finite (tsmValues (scanFiles c prefix start end' fs sc))"
proof (induction fs arbitrary: sc)
  case Nil
  then show ?case by simp
next
  case (Cons f fs)
  have "finite (tsmValues (processFile c prefix start end' f (sc\<lparr>polls := Suc (polls sc)\<rparr>)))"
    using Cons.prems by (intro processFile_finite) simp
  from Cons.IH [OF this] show ?case by simp
qed

lemma ForEachFile_all:
  "(\<forall>j < length fs. \<not> Done ctx (polls sc + j)) \<Longrightarrow>
   ForEachFile (visitFile c ctx prefix start end') fs sc = scanFiles c prefix start end' fs sc"
proof (induction fs arbitrary: sc)
  case Nil
  then show ?case by simp
next
  case (Cons f fs)
  from Cons.prems have now: "\<not> Done ctx (polls sc)" by force
  let ?sc = "processFile c prefix start end' f (sc\<lparr>polls := Suc (polls sc)\<rparr>)"
  have "\<forall>j < length fs. \<not> Done ctx (polls ?sc + j)"
    using Cons.prems by fastforce
  from Cons.IH [OF this] now show ?case
    by (simp add: visitFile_def)
qed

lemma ForEachFile_stop:
  "k < length fs \<Longrightarrow> (\<forall>j < k. \<not> Done ctx (polls sc + j)) \<Longrightarrow> Done ctx (polls sc + k) \<Longrightarrow>
   ForEachFile (visitFile c ctx prefix start end') fs sc =
     (scanFiles c prefix start end' (take k fs) sc)\<lparr>canceled := True, polls := Suc (polls sc + k)\<rparr>"
proof (induction fs arbitrary: sc k)
  case Nil
  then show ?case by simp
next
  case (Cons f fs)
  show ?case
  proof (cases k)
    case 0
    with Cons.prems show ?thesis by (simp add: visitFile_def)
  next
    case (Suc k')
    from Cons.prems Suc have now: "\<not> Done ctx (polls sc)" by force
    let ?sc = "processFile c prefix start end' f (sc\<lparr>polls := Suc (polls sc)\<rparr>)"
    have a: "k' < length fs" using Cons.prems Suc by simp
    have b: "\<forall>j < k'. \<not> Done ctx (polls ?sc + j)"
      using Cons.prems Suc by fastforce
    have d: "Done ctx (polls ?sc + k')" using Cons.prems Suc by simp
    from Cons.IH [OF a b d] now Suc show ?thesis
      by (simp add: visitFile_def)
  qed
qed

lemma cacheFn_no_error [simp]: "fst (cacheFn c prefixStr start end' k en sc) = None"
  by (simp add: cacheFn_def Let_def)

lemma scanEntries_Nil [simp]: "scanEntries c prefixStr start end' [] sc = sc"
  by (simp add: scanEntries_def)

lemma scanEntries_Cons [simp]:
  "scanEntries c prefixStr start end' ((k, en) # es) sc =
     scanEntries c prefixStr start end' es (snd (cacheFn c prefixStr start end' k en sc))"
  by (simp add: scanEntries_def)

lemma ApplyEntryFn_cacheFn:
  "ApplyEntryFn (cacheFn c prefixStr start end') es sc =
     (None, scanEntries c prefixStr start end' es sc)"
proof (induction es arbitrary: sc)
  case Nil
  then show ?case by simp
next
  case (Cons x es)
  obtain k en where x: "x = (k, en)" by (cases x)
  obtain sc' where r: "cacheFn c prefixStr start end' k en sc = (None, sc')"
    using cacheFn_no_error [of c prefixStr start end' k en sc]
    by (cases "cacheFn c prefixStr start end' k en sc") auto
  show ?case using Cons.IH [of sc'] by (simp add: x r)
qed

lemma cacheFn_finite:
  "finite (tsmValues sc) \<Longrightarrow> finite (tsmValues (snd (cacheFn c prefixStr start end' k en sc)))"
  by (simp add: cacheFn_def Let_def)

lemma scanEntries_finite:
  "finite (tsmValues sc) \<Longrightarrow> finite (tsmValues (scanEntries c prefixStr start end' es sc))"
proof (induction es arbitrary: sc)
  case Nil
  then show ?case by simp
next
  case (Cons x es)
  obtain k en where x: "x = (k, en)" by (cases x)
  have "finite (tsmValues (snd (cacheFn c prefixStr start end' k en sc)))"
    using Cons.prems by (rule cacheFn_finite)
  from Cons.IH [OF this] show ?case by (simp add: x)
qed


lemma Done_iff: "Done ctx n \<longleftrightarrow> (\<exists>k. fires ctx = Some k \<and> k \<le> n)"
  by (simp add: Done_def split: option.splits)

lemma initScan_simps [simp]:
  "polls initScan = 0" "canceled initScan = False" "tsmValues initScan = {}"
  "stats initScan = zeroStats"
  by (simp_all add: initScan_def)

lemma segmentPhase_canceled:
  assumes "fires ctx = Some k" and "k < length (FileStore e)"
  shows "segmentPhase c e ctx orgID bucketID start end' =
           (scanFiles c (prefixOf c orgID bucketID) start end' (take k (FileStore e)) initScan)
             \<lparr>canceled := True, polls := Suc k\<rparr>"
proof -
  have a: "\<forall>j < k. \<not> Done ctx (polls initScan + j)"
    using assms(1) by (simp add: Done_iff)
  have b: "Done ctx (polls initScan + k)"
    using assms(1) by (simp add: Done_iff)
  show ?thesis
    unfolding segmentPhase_def
    using ForEachFile_stop [OF assms(2) a b] by simp
qed

lemma segmentPhase_complete:
  assumes "\<forall>k. fires ctx = Some k \<longrightarrow> length (FileStore e) \<le> k"
  shows "segmentPhase c e ctx orgID bucketID start end' =
           scanFiles c (prefixOf c orgID bucketID) start end' (FileStore e) initScan"
proof -
  have "\<forall>j < length (FileStore e). \<not> Done ctx (polls initScan + j)"
    using assms by (auto simp: Done_iff)
  then show ?thesis
    unfolding segmentPhase_def by (rule ForEachFile_all)
qed

lemma segmentPhase_canceled_iff:
  "canceled (segmentPhase c e ctx orgID bucketID start end') \<longleftrightarrow>
     (\<exists>k. fires ctx = Some k \<and> k < length (FileStore e))"
proof (cases "\<exists>k. fires ctx = Some k \<and> k < length (FileStore e)")
  case True
  then obtain k where "fires ctx = Some k" "k < length (FileStore e)" by blast
  then show ?thesis by (simp add: segmentPhase_canceled)
next
  case False
  then have "\<forall>k. fires ctx = Some k \<longrightarrow> length (FileStore e) \<le> k"
    by (meson not_le)
  from segmentPhase_complete [OF this] False show ?thesis by simp
qed

lemma segmentPhase_finite:
  "finite (tsmValues (segmentPhase c e ctx orgID bucketID start end'))"
proof (cases "\<exists>k. fires ctx = Some k \<and> k < length (FileStore e)")
  case True
  then obtain k where "fires ctx = Some k" "k < length (FileStore e)" by blast
  then show ?thesis by (simp add: segmentPhase_canceled scanFiles_finite)
next
  case False
  then have "\<forall>k. fires ctx = Some k \<longrightarrow> length (FileStore e) \<le> k"
    by (meson not_le)
  from segmentPhase_complete [OF this] show ?thesis by (simp add: scanFiles_finite)
qed

lemma MeasurementNames_canceled_eq:
  "canceled (segmentPhase c e ctx orgID bucketID start end') \<Longrightarrow>
   MeasurementNames c e ctx orgID bucketID start end' =
     (Some \<lparr>strings = [], it_stats = stats (segmentPhase c e ctx orgID bucketID start end')\<rparr>,
      Err ctx (polls (segmentPhase c e ctx orgID bucketID start end')))"
  by (simp add: MeasurementNames_def Let_def NewStringSliceIteratorWithStats_def)

lemma MeasurementNames_done_eq:
  "\<not> canceled (segmentPhase c e ctx orgID bucketID start end') \<Longrightarrow>
   MeasurementNames c e ctx orgID bucketID start end' =
     (let sc2 = scanEntries c (prefixOf c orgID bucketID) start end' (Cache e)
                  (segmentPhase c e ctx orgID bucketID start end')
      in (Some \<lparr>strings = sorted_list_of_set (tsmValues sc2), it_stats = stats sc2\<rparr>, None))"
  by (simp add: MeasurementNames_def Let_def NewStringSliceIteratorWithStats_def
      ApplyEntryFn_cacheFn)


lemma scanKeys_found:
  "m \<in> fst (scanKeys c prefix ps vals ist) \<Longrightarrow> m \<notin> vals \<Longrightarrow>
   \<exists>p \<in> set ps. HasPrefix (Key p) prefix \<and> measurementOf c (Key p) = m \<and> HasData p"
proof (induction ps arbitrary: vals ist)
  case Nil
  then show ?case by simp
next
  case (Cons p ps)
  show ?case
  proof (cases "HasPrefix (Key p) prefix \<and> measurementOf c (Key p) = m \<and> HasData p")
    case True
    then show ?thesis by auto
  next
    case False
    with Cons.prems have "\<exists>q \<in> set ps. HasPrefix (Key q) prefix \<and> measurementOf c (Key q) = m \<and> HasData q"
      by (auto split: if_splits dest: Cons.IH)
    then show ?thesis by auto
  qed
qed






lemma cacheFn_mono: "tsmValues sc \<subseteq> tsmValues (snd (cacheFn c prefixStr start end' k en sc))"
  by (auto simp: cacheFn_def Let_def)

lemma scanEntries_mono:
  "tsmValues sc \<subseteq> tsmValues (scanEntries c prefixStr start end' es sc)"
proof (induction es arbitrary: sc)
  case Nil
  then show ?case by simp
next
  case (Cons x es)
  obtain k en where x: "x = (k, en)" by (cases x)
  show ?case
    using cacheFn_mono [of sc c prefixStr start end' k en]
      Cons.IH [of "snd (cacheFn c prefixStr start end' k en sc)"]
    by (auto simp: x)
qed

lemma cacheFn_found:
  "m \<in> tsmValues (snd (cacheFn c prefixStr start end' k en sc)) \<Longrightarrow> m \<notin> tsmValues sc \<Longrightarrow>
   HasPrefix k prefixStr \<and> measurementOf c k = m \<and> Contains (entry_values en) start end'"
  by (auto simp: cacheFn_def Let_def split: if_splits)

lemma cacheFn_in_range:
  "HasPrefix k prefixStr \<Longrightarrow> measurementOf c k \<noteq> [] \<Longrightarrow> Contains (entry_values en) start end' \<Longrightarrow>
   measurementOf c k \<in> tsmValues (snd (cacheFn c prefixStr start end' k en sc))"
  by (auto simp: cacheFn_def Let_def)

lemma scanEntries_in_range:
  "(k, en) \<in> set es \<Longrightarrow> HasPrefix k prefixStr \<Longrightarrow> measurementOf c k \<noteq> [] \<Longrightarrow>
   Contains (entry_values en) start end' \<Longrightarrow>
   measurementOf c k \<in> tsmValues (scanEntries c prefixStr start end' es sc)"
proof (induction es arbitrary: sc)
  case Nil
  then show ?case by simp
next
  case (Cons x es)
  obtain k' en' where x: "x = (k', en')" by (cases x)
  show ?case
  proof (cases "(k, en) = x")
    case True
    then have "measurementOf c k \<in> tsmValues (snd (cacheFn c prefixStr start end' k' en' sc))"
      using Cons.prems x by (auto intro: cacheFn_in_range)
    then show ?thesis
      using scanEntries_mono [of "snd (cacheFn c prefixStr start end' k' en' sc)" c prefixStr start end' es]
      by (auto simp: x)
  next
    case False
    then have "(k, en) \<in> set es" using Cons.prems by auto
    from Cons.IH [OF this Cons.prems(2-4)] show ?thesis by (simp add: x)
  qed
qed

lemma scanEntries_found:
  "m \<in> tsmValues (scanEntries c prefixStr start end' es sc) \<Longrightarrow> m \<notin> tsmValues sc \<Longrightarrow>
   \<exists>(k, en) \<in> set es. HasPrefix k prefixStr \<and> measurementOf c k = m \<and>
      Contains (entry_values en) start end'"
proof (induction es arbitrary: sc)
  case Nil
  then show ?case by simp
next
  case (Cons x es)
  obtain k en where x: "x = (k, en)" by (cases x)
  show ?case
  proof (cases "m \<in> tsmValues (snd (cacheFn c prefixStr start end' k en sc))")
    case True
    from cacheFn_found [OF True Cons.prems(2)] show ?thesis by (auto simp: x)
  next
    case False
    have "m \<in> tsmValues (scanEntries c prefixStr start end' es (snd (cacheFn c prefixStr start end' k en sc)))"
      using Cons.prems(1) by (simp add: x)
    from Cons.IH [OF this False] show ?thesis by auto
  qed
qed

lemma count_list_distinct:
  "distinct xs \<Longrightarrow> count_list xs m = (if m \<in> set xs then 1 else 0)"
  by (induction xs) auto

lemma processFile_found:
  assumes "m \<in> tsmValues (processFile c prefix start end' f sc)" and "m \<notin> tsmValues sc"
  shows "\<exists>p \<in> set (TimeRangeIterator f prefix start end').
           HasPrefix (Key p) prefix \<and> measurementOf c (Key p) = m \<and> HasData p"
proof -
  from assms have
    "m \<in> fst (scanKeys c prefix (TimeRangeIterator f prefix start end') (tsmValues sc) zeroStats)"
    by (auto simp: processFile_def split: if_splits prod.splits)
  from scanKeys_found [OF this assms(2)] show ?thesis .
qed

lemma scanFiles_found:
  "m \<in> tsmValues (scanFiles c prefix start end' fs sc) \<Longrightarrow> m \<notin> tsmValues sc \<Longrightarrow>
   \<exists>f \<in> set fs. \<exists>p \<in> set (TimeRangeIterator f prefix start end').
      HasPrefix (Key p) prefix \<and> measurementOf c (Key p) = m \<and> HasData p"
proof (induction fs arbitrary: sc)
  case Nil
  then show ?case by simp
next
  case (Cons f fs)
  let ?sc = "processFile c prefix start end' f (sc\<lparr>polls := Suc (polls sc)\<rparr>)"
  show ?case
  proof (cases "m \<in> tsmValues ?sc")
    case True
    have "m \<notin> tsmValues (sc\<lparr>polls := Suc (polls sc)\<rparr>)" using Cons.prems(2) by simp
    from processFile_found [OF True this] show ?thesis by auto
  next
    case False
    have "m \<in> tsmValues (scanFiles c prefix start end' fs ?sc)"
      using Cons.prems(1) by simp
    from Cons.IH [OF this False] show ?thesis by auto
  qed
qed

lemma segmentPhase_found:
  assumes "m \<in> tsmValues (segmentPhase c e ctx orgID bucketID start end')"
  shows "\<exists>f \<in> set (FileStore e).
           \<exists>p \<in> set (TimeRangeIterator f (prefixOf c orgID bucketID) start end').
             HasPrefix (Key p) (prefixOf c orgID bucketID) \<and> measurementOf c (Key p) = m \<and>
             HasData p"
proof (cases "\<exists>k. fires ctx = Some k \<and> k < length (FileStore e)")
  case True
  then obtain k where k: "fires ctx = Some k" "k < length (FileStore e)" by blast
  from assms have
    "m \<in> tsmValues (scanFiles c (prefixOf c orgID bucketID) start end' (take k (FileStore e)) initScan)"
    by (simp add: segmentPhase_canceled [OF k])
  from scanFiles_found [OF this] obtain f p where
    fp: "f \<in> set (take k (FileStore e))"
    "p \<in> set (TimeRangeIterator f (prefixOf c orgID bucketID) start end')"
    "HasPrefix (Key p) (prefixOf c orgID bucketID) \<and> measurementOf c (Key p) = m \<and> HasData p"
    by auto
  from fp(1) have "f \<in> set (FileStore e)" by (rule in_set_takeD)
  with fp(2,3) show ?thesis by blast
next
  case False
  then have "\<forall>k. fires ctx = Some k \<longrightarrow> length (FileStore e) \<le> k"
    by (meson not_le)
  from segmentPhase_complete [OF this] assms have
    "m \<in> tsmValues (scanFiles c (prefixOf c orgID bucketID) start end' (FileStore e) initScan)"
    by simp
  from scanFiles_found [OF this] show ?thesis by simp
qed


lemma cacheFn_polls [simp]: "polls (snd (cacheFn c prefixStr start end' k en sc)) = polls sc"
  by (simp add: cacheFn_def Let_def)

lemma ex_segmentPhase:
  "segmentPhase exCodec exEngine exNever 1 2 0 20 =
     \<lparr>tsmValues = {''cpu'', ''disk'', ''mem''}, stats = \<lparr>ScannedValues = 10, ScannedBytes = 80\<rparr>,
      canceled = False, polls = 2\<rparr>"
  by code_simp

lemma ex_MeasurementNames:
  "MeasurementNames exCodec exEngine exNever 1 2 0 20 =
     (Some \<lparr>strings = [''app'', ''cpu'', ''disk'', ''mem''],
            it_stats = \<lparr>ScannedValues = 13, ScannedBytes = 104\<rparr>\<rparr>, None)"
  by code_simp

section \<open>The claims\<close>

subsection \<open>Cancellation\<close>



text \<open>
  C5.  When cancellation is observed in the segment phase, the iterator returned has no
  names at all, whatever \<^verbatim>\<open>tsmValues\<close> held by then; its statistics are those of the
  segment phase.  In the example the first file has put \<open>cpu\<close> and \<open>mem\<close> into
  \<^verbatim>\<open>tsmValues\<close> before the second poll finds the context done.
\<close>

theorem MeasurementNames_canceled_no_names:
  assumes "canceled (segmentPhase c e ctx orgID bucketID start end')"
  shows "\<exists>it. fst (MeasurementNames c e ctx orgID bucketID start end') = Some it \<and>
           strings it = [] \<and>
           it_stats it = stats (segmentPhase c e ctx orgID bucketID start end')"
  using assms by (simp add: MeasurementNames_canceled_eq)

theorem MeasurementNames_canceled_no_names_witness:
  "canceled (segmentPhase exCodec exEngine (exCancel 1) 1 2 0 20) \<and>
   tsmValues (segmentPhase exCodec exEngine (exCancel 1) 1 2 0 20) = {''cpu'', ''mem''} \<and>
   (\<exists>it. fst (MeasurementNames exCodec exEngine (exCancel 1) 1 2 0 20) = Some it \<and>
      strings it = [] \<and> it_stats it = \<lparr>ScannedValues = 5, ScannedBytes = 40\<rparr>)"
proof -
  have seg: "segmentPhase exCodec exEngine (exCancel 1) 1 2 0 20 =
     \<lparr>tsmValues = {''cpu'', ''mem''}, stats = \<lparr>ScannedValues = 5, ScannedBytes = 40\<rparr>,
      canceled = True, polls = 2\<rparr>"
    by code_simp
  then have h: "canceled (segmentPhase exCodec exEngine (exCancel 1) 1 2 0 20)" by simp
  from MeasurementNames_canceled_no_names [OF h] seg show ?thesis by simp
qed

text \<open>
  C7.  The context is polled once per call of the per-file callback, before the file is
  processed, and nowhere else: processing a file, whatever the number of its keys, makes no
  poll, and neither does the visitor of the cache.  If the segment phase ends cancelled, the
  poll number \<open>k\<close> found the context done for some \<open>k\<close> below the number of files:
  exactly the \<open>k\<close> files before were processed, \<open>k + 1\<close> polls were made, and file
  number \<open>k\<close> and the files after it were not touched.  If it ends uncancelled, there was exactly one poll per
  file, and the result is the sorted content of \<^verbatim>\<open>tsmValues\<close> after the visitor has run
  over every entry of the cache from the state the files left: an expression in which the
  context does not occur, so its state during the cache phase makes no difference.
\<close>

theorem context_polled_once_per_file:
  "polls (processFile c prefix start end' f sc) = polls sc \<and>
   polls (snd (cacheFn c prefix start end' sfkey en sc)) = polls sc \<and>
   (canceled (segmentPhase c e ctx orgID bucketID start end') \<longrightarrow>
      (\<exists>k < length (FileStore e). fires ctx = Some k \<and>
         polls (segmentPhase c e ctx orgID bucketID start end') = Suc k \<and>
         segmentPhase c e ctx orgID bucketID start end' =
           (scanFiles c (prefixOf c orgID bucketID) start end' (take k (FileStore e)) initScan)
             \<lparr>canceled := True, polls := Suc k\<rparr>)) \<and>
   (\<not> canceled (segmentPhase c e ctx orgID bucketID start end') \<longrightarrow>
      polls (segmentPhase c e ctx orgID bucketID start end') = length (FileStore e) \<and>
      MeasurementNames c e ctx orgID bucketID start end' =
        (Some \<lparr>strings = sorted_list_of_set (tsmValues
                  (scanEntries c (prefixOf c orgID bucketID) start end' (Cache e)
                    (scanFiles c (prefixOf c orgID bucketID) start end' (FileStore e) initScan))),
               it_stats = stats
                  (scanEntries c (prefixOf c orgID bucketID) start end' (Cache e)
                    (scanFiles c (prefixOf c orgID bucketID) start end' (FileStore e) initScan))\<rparr>,
         None))"
proof (intro conjI impI)
  show "polls (processFile c prefix start end' f sc) = polls sc"
    by simp
next
  show "polls (snd (cacheFn c prefix start end' sfkey en sc)) = polls sc"
    by simp
next
  assume "canceled (segmentPhase c e ctx orgID bucketID start end')"
  then obtain k where k: "fires ctx = Some k" "k < length (FileStore e)"
    by (auto simp: segmentPhase_canceled_iff)
  from segmentPhase_canceled [OF k] k
  show "\<exists>k < length (FileStore e). fires ctx = Some k \<and>
         polls (segmentPhase c e ctx orgID bucketID start end') = Suc k \<and>
         segmentPhase c e ctx orgID bucketID start end' =
           (scanFiles c (prefixOf c orgID bucketID) start end' (take k (FileStore e)) initScan)
             \<lparr>canceled := True, polls := Suc k\<rparr>"
    by auto
next
  assume n: "\<not> canceled (segmentPhase c e ctx orgID bucketID start end')"
  then have "\<forall>k. fires ctx = Some k \<longrightarrow> length (FileStore e) \<le> k"
    by (auto simp: segmentPhase_canceled_iff not_less)
  from segmentPhase_complete [OF this]
  have seg: "segmentPhase c e ctx orgID bucketID start end' =
      scanFiles c (prefixOf c orgID bucketID) start end' (FileStore e) initScan" .
  show "polls (segmentPhase c e ctx orgID bucketID start end') = length (FileStore e)"
    by (simp add: seg)
  show "MeasurementNames c e ctx orgID bucketID start end' =
        (Some \<lparr>strings = sorted_list_of_set (tsmValues
                  (scanEntries c (prefixOf c orgID bucketID) start end' (Cache e)
                    (scanFiles c (prefixOf c orgID bucketID) start end' (FileStore e) initScan))),
               it_stats = stats
                  (scanEntries c (prefixOf c orgID bucketID) start end' (Cache e)
                    (scanFiles c (prefixOf c orgID bucketID) start end' (FileStore e) initScan))\<rparr>,
         None)"
    using MeasurementNames_done_eq [OF n] by (simp add: Let_def seg)
qed

text \<open>
  The example: a context that the second poll finds done stops the scan after one file with
  two polls made; a context done only after the two polls of the two files gives the same
  result as one that is never done.
\<close>

theorem context_polled_once_per_file_witness:
  "canceled (segmentPhase exCodec exEngine (exCancel 1) 1 2 0 20) \<and>
   polls (segmentPhase exCodec exEngine (exCancel 1) 1 2 0 20) = 2 \<and>
   \<not> canceled (segmentPhase exCodec exEngine (exCancel 2) 1 2 0 20) \<and>
   polls (segmentPhase exCodec exEngine (exCancel 2) 1 2 0 20) = length (FileStore exEngine) \<and>
   MeasurementNames exCodec exEngine (exCancel 2) 1 2 0 20 =
     MeasurementNames exCodec exEngine exNever 1 2 0 20"
proof -
  have c1: "canceled (segmentPhase exCodec exEngine (exCancel 1) 1 2 0 20)" by code_simp
  have f1: "fires (exCancel 1) = Some 1" by (simp add: exCancel_def)
  have c2: "\<not> canceled (segmentPhase exCodec exEngine (exCancel 2) 1 2 0 20)" by code_simp
  have c3: "\<not> canceled (segmentPhase exCodec exEngine exNever 1 2 0 20)" by code_simp
  from context_polled_once_per_file [where c = exCodec and e = exEngine and ctx = "exCancel 1"
      and orgID = 1 and bucketID = 2 and start = 0 and end' = 20] c1 f1
  have p1: "polls (segmentPhase exCodec exEngine (exCancel 1) 1 2 0 20) = 2" by auto
  from context_polled_once_per_file [where c = exCodec and e = exEngine and ctx = "exCancel 2"
      and orgID = 1 and bucketID = 2 and start = 0 and end' = 20] c2
    context_polled_once_per_file [where c = exCodec and e = exEngine and ctx = exNever
      and orgID = 1 and bucketID = 2 and start = 0 and end' = 20] c3
  have "polls (segmentPhase exCodec exEngine (exCancel 2) 1 2 0 20) = length (FileStore exEngine)"
    and "MeasurementNames exCodec exEngine (exCancel 2) 1 2 0 20 =
     MeasurementNames exCodec exEngine exNever 1 2 0 20"
    by simp_all
  with c1 p1 c2 show ?thesis by simp
qed

subsection \<open>The result of an uncancelled run\<close>

text \<open>
  C4.  In every run in which no poll finds the context done, the function returns an
  iterator and a nil error; the names are strictly ascending in the byte-wise order, so no
  name occurs twice.  A name found by the segment phase occurs exactly once, whatever the
  cache holds, and so does the name of every cache entry that has the prefix, a non-empty
  measurement and a value in the range.
\<close>

theorem MeasurementNames_sorted_distinct:
  assumes "\<not> canceled (segmentPhase c e ctx orgID bucketID start end')"
  shows "\<exists>it. MeasurementNames c e ctx orgID bucketID start end' = (Some it, None) \<and>
           sorted_wrt (<) (strings it) \<and> distinct (strings it) \<and>
           (\<forall>m \<in> tsmValues (segmentPhase c e ctx orgID bucketID start end').
              count_list (strings it) m = 1) \<and>
           (\<forall>(k, en) \<in> set (Cache e).
              HasPrefix k (prefixOf c orgID bucketID) \<and> measurementOf c k \<noteq> [] \<and>
              Contains (entry_values en) start end' \<longrightarrow>
                count_list (strings it) (measurementOf c k) = 1) \<and>
           (\<forall>m. count_list (strings it) m \<le> 1)"
proof -
  let ?sc1 = "segmentPhase c e ctx orgID bucketID start end'"
  let ?sc2 = "scanEntries c (prefixOf c orgID bucketID) start end' (Cache e) ?sc1"
  let ?it = "\<lparr>strings = sorted_list_of_set (tsmValues ?sc2), it_stats = stats ?sc2\<rparr>"
  have fin: "finite (tsmValues ?sc2)"
    by (intro scanEntries_finite segmentPhase_finite)
  have eq: "MeasurementNames c e ctx orgID bucketID start end' = (Some ?it, None)"
    using assms by (simp add: MeasurementNames_done_eq Let_def)
  have srt: "sorted_wrt (<) (strings ?it)" by simp
  have dst: "distinct (strings ?it)" by simp
  have st: "set (strings ?it) = tsmValues ?sc2" using fin by simp
  have cnt: "count_list (strings ?it) m = (if m \<in> tsmValues ?sc2 then 1 else 0)" for m
    using count_list_distinct [OF dst, of m] st by simp
  have seg: "\<forall>m \<in> tsmValues ?sc1. count_list (strings ?it) m = 1"
    using scanEntries_mono [of ?sc1 c "prefixOf c orgID bucketID" start end' "Cache e"] cnt
    by auto
  have cch: "\<forall>(k, en) \<in> set (Cache e).
              HasPrefix k (prefixOf c orgID bucketID) \<and> measurementOf c k \<noteq> [] \<and>
              Contains (entry_values en) start end' \<longrightarrow>
                count_list (strings ?it) (measurementOf c k) = 1"
    using scanEntries_in_range [of _ _ "Cache e" "prefixOf c orgID bucketID" c start end' ?sc1] cnt
    by auto
  have le: "\<forall>m. count_list (strings ?it) m \<le> 1" using cnt by simp
  from eq srt dst seg cch le show ?thesis by blast
qed

text \<open>
  The example: \<open>cpu\<close> is found in the first file and is in the cache with a value in the
  range; the result holds it once.
\<close>

theorem MeasurementNames_sorted_distinct_witness:
  "\<not> canceled (segmentPhase exCodec exEngine exNever 1 2 0 20) \<and>
   ''cpu'' \<in> tsmValues (segmentPhase exCodec exEngine exNever 1 2 0 20) \<and>
   (''obcpu,h=a#v'', exCpuEntry) \<in> set (Cache exEngine) \<and>
   HasPrefix ''obcpu,h=a#v'' (prefixOf exCodec 1 2) \<and>
   measurementOf exCodec ''obcpu,h=a#v'' = ''cpu'' \<and>
   Contains (entry_values exCpuEntry) 0 20 \<and>
   (\<exists>it. MeasurementNames exCodec exEngine exNever 1 2 0 20 = (Some it, None) \<and>
      strings it = [''app'', ''cpu'', ''disk'', ''mem''] \<and>
      sorted_wrt (<) (strings it) \<and> distinct (strings it) \<and> count_list (strings it) ''cpu'' = 1)"
proof -
  have k: "HasPrefix ''obcpu,h=a#v'' (prefixOf exCodec 1 2) \<and>
      measurementOf exCodec ''obcpu,h=a#v'' = ''cpu'' \<and>
      Contains (entry_values exCpuEntry) 0 20"
    by code_simp
  have h: "\<not> canceled (segmentPhase exCodec exEngine exNever 1 2 0 20)"
    by (simp add: ex_segmentPhase)
  have c: "(''obcpu,h=a#v'', exCpuEntry) \<in> set (Cache exEngine)"
    by (simp add: exEngine_def)
  from MeasurementNames_sorted_distinct [OF h] obtain it where
    it: "MeasurementNames exCodec exEngine exNever 1 2 0 20 = (Some it, None)"
      "sorted_wrt (<) (strings it)" "distinct (strings it)"
      "\<forall>m \<in> tsmValues (segmentPhase exCodec exEngine exNever 1 2 0 20). count_list (strings it) m = 1"
    by blast
  from it(1) ex_MeasurementNames have s: "strings it = [''app'', ''cpu'', ''disk'', ''mem'']"
    by auto
  have m: "''cpu'' \<in> tsmValues (segmentPhase exCodec exEngine exNever 1 2 0 20)"
    by (simp add: ex_segmentPhase)
  from it(4) m have "count_list (strings it) ''cpu'' = 1" by blast
  with h m c k it s show ?thesis by blast
qed

subsection \<open>What is recorded, and what is skipped\<close>

text \<open>
  C6.  A name enters \<^verbatim>\<open>tsmValues\<close> only on a positive signal.  In the loop over a cursor,
  a name that is in the result and was not there before comes from a position whose key has
  the prefix and on which \<^verbatim>\<open>HasData\<close> answered true.  In the visitor of the cache, a name
  that is there after the call and was not before is the measurement of the entry's key, the
  key has the prefix, and \<^verbatim>\<open>Contains(start, end)\<close> answered true.  Hence every name the
  function returns has such a position in some file or such an entry in the cache.
\<close>

theorem found_only_with_data:
  "(m \<in> fst (scanKeys c prefix ps vals ist) \<and> m \<notin> vals \<longrightarrow>
      (\<exists>p \<in> set ps. HasPrefix (Key p) prefix \<and> measurementOf c (Key p) = m \<and> HasData p)) \<and>
   (m \<in> tsmValues (snd (cacheFn c prefix start end' sfkey en sc)) \<and> m \<notin> tsmValues sc \<longrightarrow>
      HasPrefix sfkey prefix \<and> measurementOf c sfkey = m \<and>
      Contains (entry_values en) start end') \<and>
   (fst (MeasurementNames c e ctx orgID bucketID start end') = Some it \<and> m \<in> set (strings it) \<longrightarrow>
      (\<exists>f \<in> set (FileStore e).
         \<exists>p \<in> set (TimeRangeIterator f (prefixOf c orgID bucketID) start end').
           HasPrefix (Key p) (prefixOf c orgID bucketID) \<and> measurementOf c (Key p) = m \<and>
           HasData p) \<or>
      (\<exists>(k, en) \<in> set (Cache e).
         HasPrefix k (prefixOf c orgID bucketID) \<and> measurementOf c k = m \<and>
         Contains (entry_values en) start end'))"
proof -
  let ?sc1 = "segmentPhase c e ctx orgID bucketID start end'"
  let ?sc2 = "scanEntries c (prefixOf c orgID bucketID) start end' (Cache e) ?sc1"
  have p1: "m \<in> fst (scanKeys c prefix ps vals ist) \<and> m \<notin> vals \<longrightarrow>
      (\<exists>p \<in> set ps. HasPrefix (Key p) prefix \<and> measurementOf c (Key p) = m \<and> HasData p)"
    using scanKeys_found [of m c prefix ps vals ist] by blast
  have p2: "m \<in> tsmValues (snd (cacheFn c prefix start end' sfkey en sc)) \<and> m \<notin> tsmValues sc \<longrightarrow>
      HasPrefix sfkey prefix \<and> measurementOf c sfkey = m \<and>
      Contains (entry_values en) start end'"
    using cacheFn_found [of m c prefix start end' sfkey en sc] by blast
  have p3: "fst (MeasurementNames c e ctx orgID bucketID start end') = Some it \<and>
      m \<in> set (strings it) \<longrightarrow>
      (\<exists>f \<in> set (FileStore e).
         \<exists>p \<in> set (TimeRangeIterator f (prefixOf c orgID bucketID) start end').
           HasPrefix (Key p) (prefixOf c orgID bucketID) \<and> measurementOf c (Key p) = m \<and>
           HasData p) \<or>
      (\<exists>(k, en) \<in> set (Cache e).
         HasPrefix k (prefixOf c orgID bucketID) \<and> measurementOf c k = m \<and>
         Contains (entry_values en) start end')"
  proof
    assume a: "fst (MeasurementNames c e ctx orgID bucketID start end') = Some it \<and>
      m \<in> set (strings it)"
    have nc: "\<not> canceled ?sc1"
    proof
      assume "canceled ?sc1"
      from MeasurementNames_canceled_eq [OF this] a show False by auto
    qed
    have fin: "finite (tsmValues ?sc2)"
      by (intro scanEntries_finite segmentPhase_finite)
    from MeasurementNames_done_eq [OF nc] a
    have "strings it = sorted_list_of_set (tsmValues ?sc2)"
      by (auto simp: Let_def)
    with a fin have m2: "m \<in> tsmValues ?sc2" by simp
    show "(\<exists>f \<in> set (FileStore e).
         \<exists>p \<in> set (TimeRangeIterator f (prefixOf c orgID bucketID) start end').
           HasPrefix (Key p) (prefixOf c orgID bucketID) \<and> measurementOf c (Key p) = m \<and>
           HasData p) \<or>
      (\<exists>(k, en) \<in> set (Cache e).
         HasPrefix k (prefixOf c orgID bucketID) \<and> measurementOf c k = m \<and>
         Contains (entry_values en) start end')"
    proof (cases "m \<in> tsmValues ?sc1")
      case True
      from segmentPhase_found [OF True] show ?thesis by (rule disjI1)
    next
      case False
      from scanEntries_found [OF m2 False] show ?thesis by (rule disjI2)
    qed
  qed
  from p1 p2 p3 show ?thesis by (intro conjI)
qed

text \<open>
  The example: \<open>mem\<close> comes from the first cursor, where its key has data; \<open>app\<close> comes
  from the cache, where its entry has a value in the range; \<open>idle\<close> has neither and is not
  returned.
\<close>

theorem found_only_with_data_witness:
  "''mem'' \<in> fst (scanKeys exCodec ''ob'' exKeysA {} zeroStats) \<and> ''mem'' \<notin> ({} :: string set) \<and>
   (\<exists>p \<in> set exKeysA. HasPrefix (Key p) ''ob'' \<and> measurementOf exCodec (Key p) = ''mem'' \<and>
      HasData p) \<and>
   ''app'' \<in> tsmValues (snd (cacheFn exCodec ''ob'' 0 20 ''obapp#v''
      \<lparr>entry_values = \<lparr>Len = 1, Contains = (\<lambda>start end'. True)\<rparr>\<rparr> initScan)) \<and>
   ''app'' \<notin> tsmValues initScan \<and>
   HasPrefix ''obapp#v'' ''ob'' \<and> measurementOf exCodec ''obapp#v'' = ''app'' \<and>
   fst (MeasurementNames exCodec exEngine exNever 1 2 0 20) =
     Some \<lparr>strings = [''app'', ''cpu'', ''disk'', ''mem''],
           it_stats = \<lparr>ScannedValues = 13, ScannedBytes = 104\<rparr>\<rparr> \<and>
   ((\<exists>f \<in> set (FileStore exEngine).
       \<exists>p \<in> set (TimeRangeIterator f (prefixOf exCodec 1 2) 0 20).
         HasPrefix (Key p) (prefixOf exCodec 1 2) \<and> measurementOf exCodec (Key p) = ''mem'' \<and>
         HasData p) \<or>
    (\<exists>(k, en) \<in> set (Cache exEngine).
       HasPrefix k (prefixOf exCodec 1 2) \<and> measurementOf exCodec k = ''mem'' \<and>
       Contains (entry_values en) 0 20))"
proof -
  let ?en = "\<lparr>entry_values = \<lparr>Len = 1, Contains = (\<lambda>start end'. True)\<rparr>\<rparr>"
  let ?it = "\<lparr>strings = [''app'', ''cpu'', ''disk'', ''mem''],
           it_stats = \<lparr>ScannedValues = 13, ScannedBytes = 104\<rparr>\<rparr>"
  have h1: "''mem'' \<in> fst (scanKeys exCodec ''ob'' exKeysA {} zeroStats) \<and>
      ''mem'' \<notin> ({} :: string set)"
    by code_simp
  have h2: "''app'' \<in> tsmValues (snd (cacheFn exCodec ''ob'' 0 20 ''obapp#v'' ?en initScan)) \<and>
      ''app'' \<notin> tsmValues initScan"
    by code_simp
  have h3: "fst (MeasurementNames exCodec exEngine exNever 1 2 0 20) = Some ?it \<and>
      ''mem'' \<in> set (strings ?it)"
    by (simp add: ex_MeasurementNames)
  from found_only_with_data
      [of "''mem''" exCodec "''ob''" exKeysA "{}" zeroStats 0 20 "''obapp#v''" ?en initScan
        exEngine exNever 1 2 ?it]
    found_only_with_data
      [of "''app''" exCodec "''ob''" exKeysA "{}" zeroStats 0 20 "''obapp#v''" ?en initScan
        exEngine exNever 1 2 ?it] h1 h2 h3
  have r1: "\<exists>p \<in> set exKeysA. HasPrefix (Key p) ''ob'' \<and>
      measurementOf exCodec (Key p) = ''mem'' \<and> HasData p"
    and r2: "HasPrefix ''obapp#v'' ''ob'' \<and> measurementOf exCodec ''obapp#v'' = ''app''"
    and r3: "(\<exists>f \<in> set (FileStore exEngine).
       \<exists>p \<in> set (TimeRangeIterator f (prefixOf exCodec 1 2) 0 20).
         HasPrefix (Key p) (prefixOf exCodec 1 2) \<and> measurementOf exCodec (Key p) = ''mem'' \<and>
         HasData p) \<or>
    (\<exists>(k, en) \<in> set (Cache exEngine).
       HasPrefix k (prefixOf exCodec 1 2) \<and> measurementOf exCodec k = ''mem'' \<and>
       Contains (entry_values en) 0 20)"
    by blast+
  from h1 h2 h3 r1 r2 r3 show ?thesis by blast
qed

text \<open>
  C8.  The loop over one cursor ends at the first key without the prefix: whatever the cursor
  holds after such a key changes neither the names found nor the cursor's statistics, so no
  later key is examined.
\<close>

theorem scanKeys_ends_at_foreign_key:
  assumes "\<not> HasPrefix (Key p) prefix"
  shows "scanKeys c prefix (ps @ p # rest) vals ist = scanKeys c prefix ps vals ist"
proof (induction ps arbitrary: vals ist)
  case Nil
  from assms show ?case by simp
next
  case (Cons q ps)
  then show ?case by simp
qed

text \<open>
  The example: the fourth key of the first file belongs to another bucket; the fifth has the
  prefix, a measurement \<open>zzz\<close> and data, and is not found.
\<close>

theorem scanKeys_ends_at_foreign_key_witness:
  "\<not> HasPrefix (Key (exKeysA ! 3)) ''ob'' \<and>
   HasPrefix (Key (exKeysA ! 4)) ''ob'' \<and> HasData (exKeysA ! 4) \<and>
   measurementOf exCodec (Key (exKeysA ! 4)) = ''zzz'' \<and>
   scanKeys exCodec ''ob'' exKeysA {} zeroStats =
     scanKeys exCodec ''ob'' (take 3 exKeysA) {} zeroStats \<and>
   scanKeys exCodec ''ob'' exKeysA {} zeroStats =
     ({''cpu'', ''mem''}, \<lparr>ScannedValues = 5, ScannedBytes = 40\<rparr>)"
proof -
  have h: "\<not> HasPrefix (Key (exKeysA ! 3)) ''ob''" by code_simp
  have s: "take 3 exKeysA @ exKeysA ! 3 # drop 4 exKeysA = exKeysA" by code_simp
  have o: "HasPrefix (Key (exKeysA ! 4)) ''ob'' \<and> HasData (exKeysA ! 4) \<and>
      measurementOf exCodec (Key (exKeysA ! 4)) = ''zzz''"
    by code_simp
  have v: "scanKeys exCodec ''ob'' exKeysA {} zeroStats =
     ({''cpu'', ''mem''}, \<lparr>ScannedValues = 5, ScannedBytes = 40\<rparr>)"
    by code_simp
  from scanKeys_ends_at_foreign_key [OF h, of exCodec "take 3 exKeysA" "drop 4 exKeysA" "{}" zeroStats] s
  have "scanKeys exCodec ''ob'' exKeysA {} zeroStats =
     scanKeys exCodec ''ob'' (take 3 exKeysA) {} zeroStats"
    by simp
  with h o v show ?thesis by blast
qed



subsection \<open>The statistics and the error of the cache phase\<close>

text \<open>
  C2, as the source has it.  The visitor charges an entry only after its three early
  returns: the entry's value count is added to \<^verbatim>\<open>ScannedValues\<close> and eight times the
  count to \<^verbatim>\<open>ScannedBytes\<close> exactly when the key has the prefix, its measurement is not
  empty and the measurement is not yet in \<^verbatim>\<open>tsmValues\<close>, whether or not the entry has a
  value in the time range.  An entry whose measurement is already found, by the segment phase
  or by an earlier entry, is left before any accounting: neither the statistics nor the set
  of names change.
\<close>

theorem cacheFn_charges_unfound_entries:
  "stats (snd (cacheFn c prefixStr start end' sfkey en sc)) =
     (if HasPrefix sfkey prefixStr \<and> measurementOf c sfkey \<noteq> [] \<and>
         measurementOf c sfkey \<notin> tsmValues sc
      then \<lparr>ScannedValues = ScannedValues (stats sc) + Len (entry_values en),
            ScannedBytes = ScannedBytes (stats sc) + Len (entry_values en) * 8\<rparr>
      else stats sc) \<and>
   (measurementOf c sfkey \<in> tsmValues sc \<longrightarrow>
      cacheFn c prefixStr start end' sfkey en sc = (None, sc))"
  by (simp add: cacheFn_def Let_def)

text \<open>
  The example: \<open>idle\<close> is not found by the files and has no value in the range; its entry
  of two values is charged and the name is not recorded.  \<open>cpu\<close> is found by the first
  file; its entry is not charged.
\<close>

theorem cacheFn_charges_unfound_entries_witness:
  "measurementOf exCodec ''obcpu,h=a#v'' \<in> tsmValues (segmentPhase exCodec exEngine exNever 1 2 0 20) \<and>
   cacheFn exCodec ''ob'' 0 20 ''obcpu,h=a#v'' exCpuEntry
       (segmentPhase exCodec exEngine exNever 1 2 0 20) =
     (None, segmentPhase exCodec exEngine exNever 1 2 0 20) \<and>
   stats (snd (cacheFn exCodec ''ob'' 0 20 ''obidle#v''
       \<lparr>entry_values = \<lparr>Len = 2, Contains = (\<lambda>start end'. False)\<rparr>\<rparr>
       (segmentPhase exCodec exEngine exNever 1 2 0 20))) =
     \<lparr>ScannedValues = 12, ScannedBytes = 96\<rparr>"
proof -
  let ?sc1 = "segmentPhase exCodec exEngine exNever 1 2 0 20"
  let ?idle = "\<lparr>entry_values = \<lparr>Len = 2, Contains = (\<lambda>start end'. False)\<rparr>\<rparr>"
  have h: "measurementOf exCodec ''obcpu,h=a#v'' \<in> tsmValues ?sc1"
    by code_simp
  have g: "HasPrefix ''obidle#v'' ''ob'' \<and> measurementOf exCodec ''obidle#v'' \<noteq> [] \<and>
      measurementOf exCodec ''obidle#v'' \<notin> tsmValues ?sc1"
    by code_simp
  have st: "stats ?sc1 = \<lparr>ScannedValues = 10, ScannedBytes = 80\<rparr>"
    by (simp add: ex_segmentPhase)
  from cacheFn_charges_unfound_entries [of exCodec "''ob''" 0 20 "''obcpu,h=a#v''" exCpuEntry ?sc1] h
  have a: "cacheFn exCodec ''ob'' 0 20 ''obcpu,h=a#v'' exCpuEntry ?sc1 = (None, ?sc1)"
    by blast
  from cacheFn_charges_unfound_entries [of exCodec "''ob''" 0 20 "''obidle#v''" ?idle ?sc1] g
  have "stats (snd (cacheFn exCodec ''ob'' 0 20 ''obidle#v'' ?idle ?sc1)) =
     \<lparr>ScannedValues = ScannedValues (stats ?sc1) + Len (entry_values ?idle),
      ScannedBytes = ScannedBytes (stats ?sc1) + Len (entry_values ?idle) * 8\<rparr>"
    by simp
  then have b: "stats (snd (cacheFn exCodec ''ob'' 0 20 ''obidle#v'' ?idle ?sc1)) =
     \<lparr>ScannedValues = 12, ScannedBytes = 96\<rparr>"
    by (simp add: st)
  from h a b show ?thesis by simp
qed

text \<open>
  C2, as the claim states it, fails.  The first entry of the cache has the prefix and five
  values, and its measurement \<open>cpu\<close> was found by the segment phase: the visitor leaves the
  statistics as they are, and the whole run returns 13 scanned values, the 10 of the files and
  the 3 of \<open>idle\<close> and \<open>app\<close>, where charging every entry with the prefix would give 27.
\<close>

theorem cache_charges_every_prefixed_entry_counterexample:
  "HasPrefix ''obcpu,h=a#v'' (prefixOf exCodec 1 2) \<and>
   (''obcpu,h=a#v'', exCpuEntry) \<in> set (Cache exEngine) \<and>
   Len (entry_values exCpuEntry) = 5 \<and>
   ScannedValues (stats (segmentPhase exCodec exEngine exNever 1 2 0 20)) = 10 \<and>
   ScannedValues (stats (snd (cacheFn exCodec (prefixOf exCodec 1 2) 0 20 ''obcpu,h=a#v''
      exCpuEntry (segmentPhase exCodec exEngine exNever 1 2 0 20)))) = 10 \<and>
   ScannedValues (stats (snd (cacheFn exCodec (prefixOf exCodec 1 2) 0 20 ''obcpu,h=a#v''
      exCpuEntry (segmentPhase exCodec exEngine exNever 1 2 0 20)))) \<noteq>
     ScannedValues (stats (segmentPhase exCodec exEngine exNever 1 2 0 20)) +
       Len (entry_values exCpuEntry) \<and>
   MeasurementNames exCodec exEngine exNever 1 2 0 20 =
     (Some \<lparr>strings = [''app'', ''cpu'', ''disk'', ''mem''],
            it_stats = \<lparr>ScannedValues = 13, ScannedBytes = 104\<rparr>\<rparr>, None)"
  by code_simp

text \<open>
  C3.  The visitor of the cache returns nil for every entry in every state, so no error of
  the visitor ever arises: \<^verbatim>\<open>ApplyEntryFn\<close> runs over every entry of the cache to completion
  and returns nil.  In a call whose segment phase was not cancelled, the error the function
  returns is the one the cache scan returned, nil (line 79 assigns that value to the blank
  identifier, which loses nothing, and line 110 returns nil), and the iterator is built from
  the state the visitor leaves after the last entry.
\<close>

theorem cache_scan_runs_to_completion:
  "fst (cacheFn c prefixStr start end' sfkey en sc) = None \<and>
   ApplyEntryFn (cacheFn c prefixStr start end') es sc =
     (None, scanEntries c prefixStr start end' es sc) \<and>
   (\<not> canceled (segmentPhase c e ctx orgID bucketID start end') \<longrightarrow>
      snd (MeasurementNames c e ctx orgID bucketID start end') =
        fst (ApplyEntryFn (cacheFn c (prefixOf c orgID bucketID) start end') (Cache e)
               (segmentPhase c e ctx orgID bucketID start end')) \<and>
      snd (MeasurementNames c e ctx orgID bucketID start end') = None \<and>
      fst (MeasurementNames c e ctx orgID bucketID start end') =
        Some \<lparr>strings = sorted_list_of_set (tsmValues
                 (scanEntries c (prefixOf c orgID bucketID) start end' (Cache e)
                   (segmentPhase c e ctx orgID bucketID start end'))),
              it_stats = stats
                 (scanEntries c (prefixOf c orgID bucketID) start end' (Cache e)
                   (segmentPhase c e ctx orgID bucketID start end'))\<rparr>)"
proof -
  have p1: "fst (cacheFn c prefixStr start end' sfkey en sc) = None"
    by (rule cacheFn_no_error)
  have p2: "ApplyEntryFn (cacheFn c prefixStr start end') es sc =
     (None, scanEntries c prefixStr start end' es sc)"
    by (rule ApplyEntryFn_cacheFn)
  have p3: "\<not> canceled (segmentPhase c e ctx orgID bucketID start end') \<longrightarrow>
      snd (MeasurementNames c e ctx orgID bucketID start end') =
        fst (ApplyEntryFn (cacheFn c (prefixOf c orgID bucketID) start end') (Cache e)
               (segmentPhase c e ctx orgID bucketID start end')) \<and>
      snd (MeasurementNames c e ctx orgID bucketID start end') = None \<and>
      fst (MeasurementNames c e ctx orgID bucketID start end') =
        Some \<lparr>strings = sorted_list_of_set (tsmValues
                 (scanEntries c (prefixOf c orgID bucketID) start end' (Cache e)
                   (segmentPhase c e ctx orgID bucketID start end'))),
              it_stats = stats
                 (scanEntries c (prefixOf c orgID bucketID) start end' (Cache e)
                   (segmentPhase c e ctx orgID bucketID start end'))\<rparr>"
    by (simp add: MeasurementNames_done_eq ApplyEntryFn_cacheFn Let_def)
  from p1 p2 p3 show ?thesis by (intro conjI)
qed

text \<open>
  The example: after the two files the visitor runs over all four entries of the cache; the
  last one adds \<open>app\<close>, and no error is returned.
\<close>

theorem cache_scan_runs_to_completion_witness:
  "\<not> canceled (segmentPhase exCodec exEngine exNever 1 2 0 20) \<and>
   ApplyEntryFn (cacheFn exCodec ''ob'' 0 20) (Cache exEngine)
       (segmentPhase exCodec exEngine exNever 1 2 0 20) =
     (None, scanEntries exCodec ''ob'' 0 20 (Cache exEngine)
       (segmentPhase exCodec exEngine exNever 1 2 0 20)) \<and>
   tsmValues (scanEntries exCodec ''ob'' 0 20 (Cache exEngine)
       (segmentPhase exCodec exEngine exNever 1 2 0 20)) = {''app'', ''cpu'', ''disk'', ''mem''} \<and>
   snd (MeasurementNames exCodec exEngine exNever 1 2 0 20) =
     fst (ApplyEntryFn (cacheFn exCodec (prefixOf exCodec 1 2) 0 20) (Cache exEngine)
            (segmentPhase exCodec exEngine exNever 1 2 0 20)) \<and>
   snd (MeasurementNames exCodec exEngine exNever 1 2 0 20) = None"
proof -
  let ?sc1 = "segmentPhase exCodec exEngine exNever 1 2 0 20"
  have h: "\<not> canceled ?sc1" by (simp add: ex_segmentPhase)
  have v: "tsmValues (scanEntries exCodec ''ob'' 0 20 (Cache exEngine) ?sc1) =
      {''app'', ''cpu'', ''disk'', ''mem''}"
    by code_simp
  from cache_scan_runs_to_completion
    [where c = exCodec and prefixStr = "''ob''" and start = 0 and end' = 20 and sc = ?sc1
       and es = "Cache exEngine" and e = exEngine and ctx = exNever and orgID = 1
       and bucketID = 2] h
  have a: "ApplyEntryFn (cacheFn exCodec ''ob'' 0 20) (Cache exEngine) ?sc1 =
      (None, scanEntries exCodec ''ob'' 0 20 (Cache exEngine) ?sc1)"
    and b: "snd (MeasurementNames exCodec exEngine exNever 1 2 0 20) =
      fst (ApplyEntryFn (cacheFn exCodec (prefixOf exCodec 1 2) 0 20) (Cache exEngine) ?sc1)"
    and n: "snd (MeasurementNames exCodec exEngine exNever 1 2 0 20) = None"
    by blast+
  from h a v b n show ?thesis by (intro conjI)
qed

subsection \<open>The companion operations\<close>

text \<open>
  C10.  \<^verbatim>\<open>MeasurementTagValues\<close> and \<^verbatim>\<open>MeasurementTagKeys\<close> return a nil iterator and a
  nil error for every input: a caller that finds the error nil holds no iterator.
\<close>

theorem tag_operations_return_nil_nil:
  "fst (MeasurementTagValues e ctx orgID bucketID measurement tagKey start end' predicate) = None \<and>
   snd (MeasurementTagValues e ctx orgID bucketID measurement tagKey start end' predicate) = None \<and>
   fst (MeasurementTagKeys e ctx orgID bucketID measurement start end' predicate) = None \<and>
   snd (MeasurementTagKeys e ctx orgID bucketID measurement start end' predicate) = None"
  by (simp add: MeasurementTagValues_def MeasurementTagKeys_def)

end
